theory Spec2Isabelle
  imports Complex_Main
begin

section \<open>The chart animator page: data\<close>

text \<open>
  The model follows \<^verbatim>\<open>src/app/[locale]/chart-animator/page.tsx\<close>. The component keeps
  seven \<^verbatim>\<open>useState\<close> cells and the mutable refs \<^verbatim>\<open>frameRef\<close>, \<^verbatim>\<open>lastTimestampRef\<close> and
  \<^verbatim>\<open>isAnimatingRef\<close>; an event handler reads them and writes some of them, so every
  handler is a function from the component state to the component state. The two
  references into the document, \<^verbatim>\<open>svgRef\<close> and \<^verbatim>\<open>pathRef\<close>, are read only through the
  bounding box of the canvas and the measured length of the path, which the handlers
  take as arguments. The file input and the position of the marker take no part in the
  statements below and have no handler here. JavaScript numbers are idealised as reals: no rounding, no NaN and no infinity.
  The only division of the source that is not guarded is the one by the width and the
  height of the bounding box in \<^verbatim>\<open>getRelativeCoordinates\<close>; statements that depend on it
  assume a box of positive width and height.

  The fields of \<^verbatim>\<open>ChartPoint\<close> are called \<open>p_id\<close>, \<open>p_x\<close> and \<open>p_y\<close>, those of the
  bounding box \<open>rect_left\<close>, \<open>rect_top\<close>, \<open>rect_width\<close> and \<open>rect_height\<close>, because the
  short names are taken in HOL.
\<close>

record ChartPoint =
  p_id :: string
  p_x :: real
  p_y :: real

datatype AnimationState = Idle | Running | Paused

record DOMRect =
  rect_left :: real
  rect_top :: real
  rect_width :: real
  rect_height :: real

record PointerEvent =
  clientX :: real
  clientY :: real

text \<open>
  The callback \<^verbatim>\<open>step\<close> is a closure created by \<^verbatim>\<open>startAnimation\<close>: it holds the values
  that \<^verbatim>\<open>speed\<close> and \<^verbatim>\<open>pathLength\<close> had in the render in which start was pressed.
\<close>

record StepClosure =
  cl_speed :: real
  cl_pathLength :: real

type_synonym handle = nat

text \<open>
  The state of the component, followed by what lies outside it: the updater functions
  that \<^verbatim>\<open>step\<close> has passed to \<^verbatim>\<open>setProgress\<close> and that React has not run yet (an updater
  is fixed by the closure and by the elapsed time it was created with), the browser's
  map of pending animation frame callbacks and the counter from which
  \<^verbatim>\<open>requestAnimationFrame\<close> draws its handles.
\<close>

record State =
  imageSrc :: "string option"
  points :: "ChartPoint list"
  draggingId :: "string option"
  progress :: real
  pathLength :: real
  animationState :: AnimationState
  speed :: real
  frameRef :: "handle option"
  lastTimestampRef :: "real option"
  isAnimatingRef :: bool
  progressQueue :: "(StepClosure \<times> real) list"
  rafCallbacks :: "(handle \<times> StepClosure) list"
  rafCounter :: handle

definition init :: State where
  "init = \<lparr> imageSrc = None, points = [], draggingId = None, progress = 0,
            pathLength = 0, animationState = Idle, speed = 120, frameRef = None,
            lastTimestampRef = None, isAnimatingRef = False, progressQueue = [],
            rafCallbacks = [], rafCounter = 0 \<rparr>"

section \<open>The browser's animation frame interface\<close>

text \<open>
  \<^verbatim>\<open>requestAnimationFrame\<close> increments the counter, stores the callback under the new
  handle and returns the handle, which is therefore never 0.
  \<^verbatim>\<open>cancelAnimationFrame\<close> removes the handle from the map and does nothing when it
  is not there.
\<close>

definition requestAnimationFrame :: "StepClosure \<Rightarrow> State \<Rightarrow> handle \<times> State" where
  "requestAnimationFrame cb s =
     (let h = rafCounter s + 1
      in (h, s\<lparr> rafCounter := h, rafCallbacks := rafCallbacks s @ [(h, cb)] \<rparr>))"

definition cancelAnimationFrame :: "handle \<Rightarrow> State \<Rightarrow> State" where
  "cancelAnimationFrame h s =
     s\<lparr> rafCallbacks := filter (\<lambda>e. fst e \<noteq> h) (rafCallbacks s) \<rparr>"

section \<open>Derived values and effects\<close>

text \<open>
  \<^verbatim>\<open>pathD\<close> is the string \<^verbatim>\<open>M x% y% L x% y% ...\<close>. The model keeps the commands the string
  is printed from; the string is used only as the dependency of the two effects, which
  run when it differs from the one of the previous render.
\<close>

datatype PathCommand = MoveTo real real | LineTo real real

definition pathD :: "ChartPoint list \<Rightarrow> PathCommand list" where
  "pathD ps =
     (case ps of
        [] \<Rightarrow> []
      | first # rest \<Rightarrow> MoveTo (p_x first) (p_y first) # map (\<lambda>point. LineTo (p_x point) (p_y point)) rest)"

text \<open>
  \<^verbatim>\<open>if (frameRef.current)\<close> tests truthiness: the branch is taken for a handle other
  than 0.
\<close>

definition cancelAnimationFrameIfNeeded :: "State \<Rightarrow> State" where
  "cancelAnimationFrameIfNeeded s =
     (case frameRef s of
        None \<Rightarrow> s
      | Some h \<Rightarrow> if h \<noteq> 0 then (cancelAnimationFrame h s)\<lparr> frameRef := None \<rparr> else s)"

text \<open>
  The first effect stores the measured length of the path. \<^verbatim>\<open>pathRef.current\<close> is set
  exactly when the path element is rendered, that is when there is a point.
  \<^verbatim>\<open>getTotalLength\<close> belongs to the browser: its result is the parameter \<open>measured\<close>.
\<close>

definition measureEffect :: "real \<Rightarrow> State \<Rightarrow> State" where
  "measureEffect measured s =
     (if points s \<noteq> [] then s\<lparr> pathLength := measured \<rparr> else s\<lparr> pathLength := 0 \<rparr>)"

definition resetEffect :: "State \<Rightarrow> State" where
  "resetEffect s =
     (cancelAnimationFrameIfNeeded s)
       \<lparr> animationState := Idle, progress := 0, lastTimestampRef := None,
         isAnimatingRef := False \<rparr>"

text \<open>
  A handler is followed by a render and by the effects whose dependency changed.
  \<open>before\<close> is the point list of the previous render.
\<close>

definition commit :: "ChartPoint list \<Rightarrow> real \<Rightarrow> State \<Rightarrow> State" where
  "commit before measured s =
     (if pathD (points s) \<noteq> pathD before then resetEffect (measureEffect measured s) else s)"

section \<open>Pointer handlers\<close>

definition getRelativeCoordinates :: "DOMRect option \<Rightarrow> PointerEvent \<Rightarrow> (real \<times> real) option" where
  "getRelativeCoordinates svgRect event =
     (case svgRect of
        None \<Rightarrow> None
      | Some rect \<Rightarrow>
          (let x = ((clientX event - rect_left rect) / rect_width rect) * 100;
               y = ((clientY event - rect_top rect) / rect_height rect) * 100
           in Some (min 100 (max 0 x), min 100 (max 0 y))))"

text \<open>The distance computed in the body of the loop of \<^verbatim>\<open>findNearestPoint\<close>.\<close>

definition distance :: "DOMRect \<Rightarrow> PointerEvent \<Rightarrow> ChartPoint \<Rightarrow> real" where
  "distance rect event point =
     (let px = (p_x point / 100) * rect_width rect;
          py = (p_y point / 100) * rect_height rect;
          dx = clientX event - rect_left rect - px;
          dy = clientY event - rect_top rect - py
      in sqrt (dx * dx + dy * dy))"

text \<open>
  The loop carries \<^verbatim>\<open>nearest\<close> and \<^verbatim>\<open>minDistance\<close>; \<open>None\<close> for \<^verbatim>\<open>minDistance\<close> is its
  initial value \<^verbatim>\<open>Infinity\<close>, below which every distance lies.
\<close>

fun nearestLoop ::
  "DOMRect \<Rightarrow> PointerEvent \<Rightarrow> ChartPoint list \<Rightarrow> ChartPoint option \<times> real option
     \<Rightarrow> ChartPoint option \<times> real option" where
  "nearestLoop rect event [] acc = acc"
| "nearestLoop rect event (point # rest) (nearest, minDistance) =
     (if (case minDistance of None \<Rightarrow> True | Some m \<Rightarrow> distance rect event point < m)
      then nearestLoop rect event rest (Some point, Some (distance rect event point))
      else nearestLoop rect event rest (nearest, minDistance))"

definition findNearestPoint :: "DOMRect option \<Rightarrow> PointerEvent \<Rightarrow> ChartPoint list \<Rightarrow> ChartPoint option" where
  "findNearestPoint svgRect event ps =
     (case svgRect of
        None \<Rightarrow> None
      | Some rect \<Rightarrow>
          (case nearestLoop rect event ps (None, None) of
             (nearest, None) \<Rightarrow> None
           | (nearest, Some minDistance) \<Rightarrow> if minDistance < 18 then nearest else None))"

text \<open>\<open>newId\<close> is the result of \<^verbatim>\<open>crypto.randomUUID()\<close>.\<close>

definition handlePointerDown :: "DOMRect option \<Rightarrow> PointerEvent \<Rightarrow> string \<Rightarrow> State \<Rightarrow> State" where
  "handlePointerDown svgRect event newId s =
     (case findNearestPoint svgRect event (points s) of
        Some nearest \<Rightarrow> s\<lparr> draggingId := Some (p_id nearest) \<rparr>
      | None \<Rightarrow>
          (case getRelativeCoordinates svgRect event of
             None \<Rightarrow> s
           | Some (x, y) \<Rightarrow> s\<lparr> points := points s @ [\<lparr> p_id = newId, p_x = x, p_y = y \<rparr>] \<rparr>))"

text \<open>\<^verbatim>\<open>if (!draggingId) return\<close> also returns for the empty string.\<close>

definition handlePointerMove :: "DOMRect option \<Rightarrow> PointerEvent \<Rightarrow> State \<Rightarrow> State" where
  "handlePointerMove svgRect event s =
     (case draggingId s of
        None \<Rightarrow> s
      | Some d \<Rightarrow>
          if d = [] then s
          else (case getRelativeCoordinates svgRect event of
                  None \<Rightarrow> s
                | Some (x, y) \<Rightarrow>
                    s\<lparr> points := map (\<lambda>point. if p_id point = d then point\<lparr> p_x := x, p_y := y \<rparr> else point)
                                     (points s) \<rparr>))"

definition stopDragging :: "State \<Rightarrow> State" where
  "stopDragging s = s\<lparr> draggingId := None \<rparr>"

section \<open>Animation\<close>

text \<open>
  The function given to \<^verbatim>\<open>setProgress\<close> inside \<^verbatim>\<open>step\<close>. React does not run it where it
  is passed: it runs it, on the progress of that moment, in the render that follows.
\<close>

definition progressUpdater :: "StepClosure \<Rightarrow> real \<Rightarrow> State \<Rightarrow> State" where
  "progressUpdater cb deltaSeconds s =
     (let prev = progress s;
          dist = cl_speed cb * deltaSeconds;
          deltaProgress = (if cl_pathLength cb > 0 then dist / cl_pathLength cb else 0);
          next = min 1 (prev + deltaProgress);
          s' = (if next \<ge> 1
                then (cancelAnimationFrameIfNeeded (s\<lparr> animationState := Paused \<rparr>))
                       \<lparr> isAnimatingRef := False \<rparr>
                else s)
      in s'\<lparr> progress := next \<rparr>)"

text \<open>
  The elapsed time that \<^verbatim>\<open>step\<close> computes: the reference timestamp is the stored one,
  and the current one when none is stored.
\<close>

definition deltaSeconds :: "real \<Rightarrow> State \<Rightarrow> real" where
  "deltaSeconds timestamp s =
     (let s0 = (if lastTimestampRef s = None then s\<lparr> lastTimestampRef := Some timestamp \<rparr> else s)
      in (timestamp - (case lastTimestampRef s0 of None \<Rightarrow> 0 | Some l \<Rightarrow> l)) / 1000)"

text \<open>
  The callback queues the updater and goes on: the test of \<^verbatim>\<open>isAnimatingRef\<close> that
  follows sees the ref as the callback found it, and the next frame is requested also by
  the callback whose updater will end the run.
\<close>

definition queueProgressUpdater :: "StepClosure \<Rightarrow> real \<Rightarrow> State \<Rightarrow> State" where
  "queueProgressUpdater cb d s = s\<lparr> progressQueue := progressQueue s @ [(cb, d)] \<rparr>"

definition step :: "StepClosure \<Rightarrow> real \<Rightarrow> State \<Rightarrow> State" where
  "step cb timestamp s =
     (if \<not> isAnimatingRef s then s
      else
        (let d = deltaSeconds timestamp s;
             s1 = s\<lparr> lastTimestampRef := Some timestamp \<rparr>;
             s2 = queueProgressUpdater cb d s1
         in if isAnimatingRef s2
            then (let (h, s3) = requestAnimationFrame cb s2 in s3\<lparr> frameRef := Some h \<rparr>)
            else s2))"

text \<open>The render that follows runs the queued updaters in the order they were queued.\<close>

fun applyUpdaters :: "(StepClosure \<times> real) list \<Rightarrow> State \<Rightarrow> State" where
  "applyUpdaters [] s = s"
| "applyUpdaters ((cb, d) # rest) s = applyUpdaters rest (progressUpdater cb d s)"

definition render :: "State \<Rightarrow> State" where
  "render s = applyUpdaters (progressQueue s) (s\<lparr> progressQueue := [] \<rparr>)"

definition startAnimation :: "State \<Rightarrow> State" where
  "startAnimation s =
     (if length (points s) < 2 \<or> pathLength s = 0 then s
      else
        (let s1 = s\<lparr> isAnimatingRef := True, animationState := Running \<rparr>;
             cb = \<lparr> cl_speed = speed s, cl_pathLength = pathLength s \<rparr>;
             s2 = cancelAnimationFrameIfNeeded s1;
             (h, s3) = requestAnimationFrame cb s2
         in s3\<lparr> frameRef := Some h \<rparr>))"

definition pauseAnimation :: "State \<Rightarrow> State" where
  "pauseAnimation s =
     (cancelAnimationFrameIfNeeded s)
       \<lparr> animationState := Paused, lastTimestampRef := None, isAnimatingRef := False \<rparr>"

definition resetAnimation :: "State \<Rightarrow> State" where
  "resetAnimation s =
     (cancelAnimationFrameIfNeeded s)
       \<lparr> progress := 0, animationState := Idle, lastTimestampRef := None,
         isAnimatingRef := False \<rparr>"

text \<open>
  \<^verbatim>\<open>setSpeed\<close> is the setter of the state cell. Its only call is in the \<^verbatim>\<open>onChange\<close>
  handler of the range input, with the value of that input. The input is declared with
  \<^verbatim>\<open>min={20}\<close>, \<^verbatim>\<open>max={300}\<close> and \<^verbatim>\<open>step={10}\<close>, and the browser keeps the value of such an
  input valid (HTML standard, value sanitization of the range state): a value below the
  minimum becomes the minimum, a value above the maximum becomes the maximum, and a value
  off the steps counted from the minimum becomes the nearest step, the upper one of two
  equally near. \<open>raw\<close> is the value asked of the input.
\<close>

definition setSpeed :: "real \<Rightarrow> State \<Rightarrow> State" where
  "setSpeed v s = s\<lparr> speed := v \<rparr>"

definition rangeInputValue :: "real \<Rightarrow> real" where
  "rangeInputValue raw =
     (let v = min 300 (max 20 raw)
      in 20 + 10 * of_int \<lfloor>(v - 20) / 10 + 1 / 2\<rfloor>)"

definition onSpeedChange :: "real \<Rightarrow> State \<Rightarrow> State" where
  "onSpeedChange raw s = setSpeed (rangeInputValue raw) s"

section \<open>Events\<close>

text \<open>
  What the page can receive. A pointer-down carries the id of the point whose circle was
  hit, if any: the handler of that \<^verbatim>\<open><g>\<close> element runs first and the event then bubbles to
  the handler of the \<^verbatim>\<open><svg>\<close> element. The last component of a pointer event is the
  length that the browser measures for the path after the render. A disabled button
  delivers no click. A frame is followed by the render that its callbacks asked for,
  before the next event.
\<close>

definition onPointerDown ::
  "string option \<Rightarrow> DOMRect option \<Rightarrow> PointerEvent \<Rightarrow> string \<Rightarrow> real \<Rightarrow> State \<Rightarrow> State" where
  "onPointerDown target svgRect event newId measured s =
     (let s1 = (case target of None \<Rightarrow> s | Some pid \<Rightarrow> s\<lparr> draggingId := Some pid \<rparr>)
      in commit (points s) measured (handlePointerDown svgRect event newId s1))"

definition onPointerMove :: "DOMRect option \<Rightarrow> PointerEvent \<Rightarrow> real \<Rightarrow> State \<Rightarrow> State" where
  "onPointerMove svgRect event measured s =
     commit (points s) measured (handlePointerMove svgRect event s)"

text \<open>
  A frame: the browser takes the handles that are pending, and for each one that is
  still pending when its turn comes, removes it and calls it with the frame's timestamp.
\<close>

fun runCallbacks :: "handle list \<Rightarrow> real \<Rightarrow> State \<Rightarrow> State" where
  "runCallbacks [] timestamp s = s"
| "runCallbacks (h # hs) timestamp s =
     (case map_of (rafCallbacks s) h of
        None \<Rightarrow> runCallbacks hs timestamp s
      | Some cb \<Rightarrow> runCallbacks hs timestamp (step cb timestamp (cancelAnimationFrame h s)))"

definition animationFrame :: "real \<Rightarrow> State \<Rightarrow> State" where
  "animationFrame timestamp s = runCallbacks (map fst (rafCallbacks s)) timestamp s"

datatype Event =
    PointerDown "string option" "DOMRect option" PointerEvent string real
  | PointerMove "DOMRect option" PointerEvent real
  | PointerUp
  | PointerLeave
  | ClickStart
  | ClickPause
  | ClickReset
  | ChangeSpeed real
  | AnimationFrame real

fun handle_event :: "Event \<Rightarrow> State \<Rightarrow> State" where
  "handle_event (PointerDown target svgRect event newId measured) s =
     onPointerDown target svgRect event newId measured s"
| "handle_event (PointerMove svgRect event measured) s = onPointerMove svgRect event measured s"
| "handle_event PointerUp s = stopDragging s"
| "handle_event PointerLeave s = stopDragging s"
| "handle_event ClickStart s = (if length (points s) < 2 then s else startAnimation s)"
| "handle_event ClickPause s =
     (if animationState s \<noteq> Running \<and> progress s = 0 then s else pauseAnimation s)"
| "handle_event ClickReset s = resetAnimation s"
| "handle_event (ChangeSpeed raw) s = onSpeedChange raw s"
| "handle_event (AnimationFrame timestamp) s = render (animationFrame timestamp s)"

definition play :: "Event list \<Rightarrow> State \<Rightarrow> State" where
  "play events s = foldl (\<lambda>s e. handle_event e s) s events"

definition run :: "Event list \<Rightarrow> State" where
  "run events = play events init"

section \<open>Invariant of the animation bookkeeping\<close>

text \<open>
  At most one callback is pending, and then \<^verbatim>\<open>frameRef\<close> holds its handle;
  \<^verbatim>\<open>isAnimatingRef\<close> is set exactly in state \<^verbatim>\<open>running\<close>.
\<close>

fun pending_for :: "(handle \<times> StepClosure) list \<Rightarrow> handle option \<Rightarrow> bool" where
  "pending_for [] ref = True"
| "pending_for [(h, cb)] ref = (ref = Some h \<and> h \<noteq> 0)"
| "pending_for (e # e' # es) ref = False"

definition pending_ok :: "State \<Rightarrow> bool" where
  "pending_ok s = pending_for (rafCallbacks s) (frameRef s)"

definition consistent :: "State \<Rightarrow> bool" where
  "consistent s = (pending_ok s \<and> isAnimatingRef s = (animationState s = Running))"

section \<open>Vocabulary of the statements\<close>

text \<open>
  A click that adds a point: a pointer-down on a canvas of positive width and height
  that lands outside the capture radius of every point placed so far.
\<close>

fun outsideCapture :: "Event \<Rightarrow> State \<Rightarrow> bool" where
  "outsideCapture (PointerDown target (Some rect) event newId measured) s =
     (0 < rect_width rect \<and> 0 < rect_height rect
      \<and> list_all (\<lambda>q. \<not> distance rect event q < 18) (points s))"
| "outsideCapture e s = False"

fun clickToAdd :: "Event list \<Rightarrow> State \<Rightarrow> bool" where
  "clickToAdd [] s = True"
| "clickToAdd (e # es) s = (outsideCapture e s \<and> clickToAdd es (handle_event e s))"

fun newIdOf :: "Event \<Rightarrow> string" where
  "newIdOf (PointerDown target svgRect event newId measured) = newId"
| "newIdOf e = []"

definition inCanvas :: "ChartPoint \<Rightarrow> bool" where
  "inCanvas p = (0 \<le> p_x p \<and> p_x p \<le> 100 \<and> 0 \<le> p_y p \<and> p_y p \<le> 100)"

section \<open>Sample sessions\<close>

text \<open>
  A canvas of 100 by 100 pixels at the origin, on which a percentage is a pixel, and
  sessions on it: two points placed 80 pixels apart; the animation started on them; the
  animation run to its end (at 120 pixels per second the 80 pixels are covered within the
  second between the two frames); a drag of the first point begun while the animation is
  under way.
\<close>

definition canvas :: DOMRect where
  "canvas = \<lparr> rect_left = 0, rect_top = 0, rect_width = 100, rect_height = 100 \<rparr>"

definition twoPoints :: "Event list" where
  "twoPoints =
     [PointerDown None (Some canvas) \<lparr> clientX = 10, clientY = 10 \<rparr> ''a'' 0,
      PointerUp,
      PointerDown None (Some canvas) \<lparr> clientX = 90, clientY = 10 \<rparr> ''b'' 80,
      PointerUp]"

definition started :: "Event list" where
  "started = twoPoints @ [ClickStart]"

definition completedRun :: "Event list" where
  "completedRun = twoPoints @ [ClickStart, AnimationFrame 0, AnimationFrame 1000]"

definition draggingWhileRunning :: "Event list" where
  "draggingWhileRunning =
     twoPoints @
     [ClickStart, AnimationFrame 0, AnimationFrame 250,
      PointerDown (Some ''a'') (Some canvas) \<lparr> clientX = 10, clientY = 10 \<rparr> ''x'' 80]"

definition threeClicks :: "Event list" where
  "threeClicks =
     [PointerDown None (Some canvas) \<lparr> clientX = 10, clientY = 10 \<rparr> ''a'' 0,
      PointerDown None (Some canvas) \<lparr> clientX = 150, clientY = 50 \<rparr> ''b'' 98,
      PointerDown None (Some canvas) \<lparr> clientX = 90, clientY = - 20 \<rparr> ''c'' 149]"

text \<open>
  A canvas of 400 by 200 pixels whose corner is at (40, 20), on which a percentage is
  neither a pixel nor a client coordinate, and a drag begun on it: the points a and b are
  placed at (10%, 10%) and (90%, 10%), and a pointer-down 2 pixels right of a and 1 pixel
  below it picks a up.
\<close>

definition wideCanvas :: DOMRect where
  "wideCanvas = \<lparr> rect_left = 40, rect_top = 20, rect_width = 400, rect_height = 200 \<rparr>"

definition draggingOnWideCanvas :: "Event list" where
  "draggingOnWideCanvas =
     [PointerDown None (Some wideCanvas) \<lparr> clientX = 80, clientY = 40 \<rparr> ''a'' 0,
      PointerUp,
      PointerDown None (Some wideCanvas) \<lparr> clientX = 400, clientY = 40 \<rparr> ''b'' 320,
      PointerUp,
      PointerDown (Some ''a'') (Some wideCanvas) \<lparr> clientX = 82, clientY = 41 \<rparr> ''x'' 320]"

section \<open>Auxiliary facts\<close>

lemma sqrt_less_18: "sqrt x < 18 \<longleftrightarrow> x < 324"
proof -
  have "sqrt 324 = 18" by (rule real_sqrt_unique) simp_all
  then show ?thesis using real_sqrt_less_iff [of x 324] by simp
qed

lemmas session_defs = twoPoints_def started_def completedRun_def draggingWhileRunning_def
  threeClicks_def canvas_def wideCanvas_def draggingOnWideCanvas_def

lemmas eval_defs = run_def play_def init_def onPointerDown_def onPointerMove_def
  handlePointerDown_def handlePointerMove_def findNearestPoint_def getRelativeCoordinates_def
  distance_def commit_def pathD_def measureEffect_def resetEffect_def
  cancelAnimationFrameIfNeeded_def cancelAnimationFrame_def requestAnimationFrame_def
  stopDragging_def startAnimation_def animationFrame_def step_def deltaSeconds_def
  progressUpdater_def queueProgressUpdater_def render_def pauseAnimation_def
  resetAnimation_def setSpeed_def onSpeedChange_def sqrt_less_18 Let_def

subsection \<open>Cancelling\<close>

lemma pending_ok_cancel:
  "pending_ok s \<Longrightarrow> rafCallbacks (cancelAnimationFrameIfNeeded s) = []"
  by (cases "(rafCallbacks s, frameRef s)" rule: pending_for.cases)
     (auto simp: pending_ok_def cancelAnimationFrameIfNeeded_def cancelAnimationFrame_def
      split: option.splits)

lemma cancel_fields [simp]:
  "points (cancelAnimationFrameIfNeeded s) = points s"
  "draggingId (cancelAnimationFrameIfNeeded s) = draggingId s"
  "progress (cancelAnimationFrameIfNeeded s) = progress s"
  "pathLength (cancelAnimationFrameIfNeeded s) = pathLength s"
  "animationState (cancelAnimationFrameIfNeeded s) = animationState s"
  "speed (cancelAnimationFrameIfNeeded s) = speed s"
  "lastTimestampRef (cancelAnimationFrameIfNeeded s) = lastTimestampRef s"
  "isAnimatingRef (cancelAnimationFrameIfNeeded s) = isAnimatingRef s"
  "imageSrc (cancelAnimationFrameIfNeeded s) = imageSrc s"
  "rafCounter (cancelAnimationFrameIfNeeded s) = rafCounter s"
  by (simp_all add: cancelAnimationFrameIfNeeded_def cancelAnimationFrame_def split: option.splits)

lemma pending_ok_empty: "rafCallbacks s = [] \<Longrightarrow> pending_ok s"
  by (simp add: pending_ok_def)

lemma cancel_empty: "rafCallbacks s = [] \<Longrightarrow> rafCallbacks (cancelAnimationFrameIfNeeded s) = []"
  by (simp add: pending_ok_cancel pending_ok_empty)

lemma cancel_idem:
  "cancelAnimationFrameIfNeeded (cancelAnimationFrameIfNeeded s) = cancelAnimationFrameIfNeeded s"
  by (simp add: cancelAnimationFrameIfNeeded_def cancelAnimationFrame_def split: option.splits)

lemma cancel_update_commute:
  "cancelAnimationFrameIfNeeded
     (s\<lparr> progress := p, animationState := a, lastTimestampRef := l, isAnimatingRef := b \<rparr>)
   = (cancelAnimationFrameIfNeeded s)
       \<lparr> progress := p, animationState := a, lastTimestampRef := l, isAnimatingRef := b \<rparr>"
  by (simp add: cancelAnimationFrameIfNeeded_def cancelAnimationFrame_def split: option.splits)

subsection \<open>The invariant holds in every state the page reaches\<close>

lemma consistent_init: "consistent init"
  by (simp add: consistent_def pending_ok_def init_def)

lemma consistent_resetEffect: "consistent s \<Longrightarrow> consistent (resetEffect s)"
  by (simp add: consistent_def resetEffect_def pending_ok_def pending_ok_cancel)

lemma consistent_measureEffect: "consistent s \<Longrightarrow> consistent (measureEffect m s)"
  by (simp add: consistent_def measureEffect_def pending_ok_def)

lemma consistent_commit: "consistent s \<Longrightarrow> consistent (commit before m s)"
  by (simp add: commit_def consistent_resetEffect consistent_measureEffect)

lemma consistent_handlePointerDown: "consistent s \<Longrightarrow> consistent (handlePointerDown r e n s)"
  by (simp add: consistent_def handlePointerDown_def pending_ok_def split: option.splits prod.splits)

lemma consistent_handlePointerMove: "consistent s \<Longrightarrow> consistent (handlePointerMove r e s)"
  by (simp add: consistent_def handlePointerMove_def pending_ok_def split: option.splits prod.splits)

lemma consistent_pauseAnimation: "consistent s \<Longrightarrow> consistent (pauseAnimation s)"
  by (simp add: consistent_def pauseAnimation_def pending_ok_def pending_ok_cancel)

lemma consistent_resetAnimation: "consistent s \<Longrightarrow> consistent (resetAnimation s)"
  by (simp add: consistent_def resetAnimation_def pending_ok_def pending_ok_cancel)

lemma consistent_startAnimation: "consistent s \<Longrightarrow> consistent (startAnimation s)"
proof -
  assume i: "consistent s"
  let ?s1 = "s\<lparr> isAnimatingRef := True, animationState := Running \<rparr>"
  have "pending_ok ?s1" using i by (simp add: consistent_def pending_ok_def)
  then have "rafCallbacks (cancelAnimationFrameIfNeeded ?s1) = []" by (rule pending_ok_cancel)
  then show ?thesis using i
    by (simp add: startAnimation_def consistent_def pending_ok_def requestAnimationFrame_def Let_def)
qed

lemma consistent_step: "consistent s \<Longrightarrow> rafCallbacks s = [] \<Longrightarrow> consistent (step cb t s)"
  by (simp add: step_def queueProgressUpdater_def consistent_def pending_ok_def
      requestAnimationFrame_def Let_def)

lemma consistent_progressUpdater: "consistent s \<Longrightarrow> consistent (progressUpdater cb d s)"
proof -
  assume i: "consistent s"
  then have "pending_ok (s\<lparr> animationState := Paused \<rparr>)"
    by (simp add: consistent_def pending_ok_def)
  then have "rafCallbacks (cancelAnimationFrameIfNeeded (s\<lparr> animationState := Paused \<rparr>)) = []"
    by (rule pending_ok_cancel)
  then show ?thesis using i
    by (simp add: progressUpdater_def consistent_def pending_ok_def Let_def)
qed

lemma consistent_applyUpdaters: "consistent s \<Longrightarrow> consistent (applyUpdaters us s)"
  by (induction us s rule: applyUpdaters.induct) (simp_all add: consistent_progressUpdater)

lemma consistent_render: "consistent s \<Longrightarrow> consistent (render s)"
proof -
  assume "consistent s"
  then have "consistent (s\<lparr> progressQueue := [] \<rparr>)"
    by (simp add: consistent_def pending_ok_def)
  then show ?thesis by (simp add: render_def consistent_applyUpdaters)
qed

lemma animationFrame_single:
  "rafCallbacks s = [(h, cb)] \<Longrightarrow> animationFrame t s = step cb t (cancelAnimationFrame h s)"
  by (simp add: animationFrame_def)

lemma consistent_animationFrame: "consistent s \<Longrightarrow> consistent (animationFrame t s)"
proof -
  assume i: "consistent s"
  then have p: "pending_ok s" by (simp add: consistent_def)
  show ?thesis
  proof (cases "rafCallbacks s")
    case Nil
    then show ?thesis using i by (simp add: animationFrame_def)
  next
    case (Cons a rest)
    with p obtain h cb where a: "rafCallbacks s = [(h, cb)]"
      by (cases a; cases rest) (auto simp: pending_ok_def)
    have "consistent (cancelAnimationFrame h s)" using i a
      by (simp add: consistent_def pending_ok_def cancelAnimationFrame_def)
    moreover have "rafCallbacks (cancelAnimationFrame h s) = []" using a
      by (simp add: cancelAnimationFrame_def)
    ultimately have "consistent (step cb t (cancelAnimationFrame h s))" by (rule consistent_step)
    then show ?thesis using a by (simp add: animationFrame_single)
  qed
qed

lemma consistent_handle_event: "consistent s \<Longrightarrow> consistent (handle_event e s)"
proof (cases e)
  case (PointerDown target r ev n m)
  assume i: "consistent s"
  have "consistent (case target of None \<Rightarrow> s | Some pid \<Rightarrow> s\<lparr> draggingId := Some pid \<rparr>)"
    using i by (simp add: consistent_def pending_ok_def split: option.splits)
  then show ?thesis using PointerDown
    by (simp add: onPointerDown_def consistent_commit consistent_handlePointerDown)
next
  case (PointerMove r ev m)
  assume "consistent s"
  then show ?thesis using PointerMove
    by (simp add: onPointerMove_def consistent_commit consistent_handlePointerMove)
next
  case PointerUp
  assume "consistent s"
  then show ?thesis using PointerUp by (simp add: stopDragging_def consistent_def pending_ok_def)
next
  case PointerLeave
  assume "consistent s"
  then show ?thesis using PointerLeave by (simp add: stopDragging_def consistent_def pending_ok_def)
next
  case ClickStart
  assume "consistent s"
  then show ?thesis using ClickStart by (simp add: consistent_startAnimation)
next
  case ClickPause
  assume "consistent s"
  then show ?thesis using ClickPause by (simp add: consistent_pauseAnimation)
next
  case ClickReset
  assume "consistent s"
  then show ?thesis using ClickReset by (simp add: consistent_resetAnimation)
next
  case (ChangeSpeed v)
  assume "consistent s"
  then show ?thesis using ChangeSpeed
    by (simp add: onSpeedChange_def setSpeed_def consistent_def pending_ok_def)
next
  case (AnimationFrame t)
  assume "consistent s"
  then show ?thesis using AnimationFrame
    by (simp add: consistent_animationFrame consistent_render)
qed

lemma play_Nil [simp]: "play [] s = s"
  by (simp add: play_def)

lemma play_Cons [simp]: "play (e # es) s = play es (handle_event e s)"
  by (simp add: play_def)

lemma consistent_play: "consistent s \<Longrightarrow> consistent (play events s)"
  by (induction events arbitrary: s) (simp_all add: consistent_handle_event)

lemma consistent_run: "consistent (run events)"
  by (simp add: run_def consistent_play consistent_init)

subsection \<open>The nearest point\<close>

lemma nearestLoop_Some:
  "\<exists>p'. nearestLoop rect ev ps (Some p, Some (distance rect ev p))
           = (Some p', Some (distance rect ev p'))
      \<and> (p' = p \<or> p' \<in> set ps) \<and> distance rect ev p' \<le> distance rect ev p
      \<and> (\<forall>q\<in>set ps. distance rect ev p' \<le> distance rect ev q)"
proof (induction ps arbitrary: p)
  case Nil
  show ?case by simp
next
  case (Cons a ps)
  show ?case
  proof (cases "distance rect ev a < distance rect ev p")
    case True
    from Cons.IH [of a] obtain p' where
      "nearestLoop rect ev ps (Some a, Some (distance rect ev a))
         = (Some p', Some (distance rect ev p'))"
      "p' = a \<or> p' \<in> set ps" "distance rect ev p' \<le> distance rect ev a"
      "\<forall>q\<in>set ps. distance rect ev p' \<le> distance rect ev q"
      by blast
    with True show ?thesis by auto
  next
    case False
    from Cons.IH [of p] obtain p' where
      "nearestLoop rect ev ps (Some p, Some (distance rect ev p))
         = (Some p', Some (distance rect ev p'))"
      "p' = p \<or> p' \<in> set ps" "distance rect ev p' \<le> distance rect ev p"
      "\<forall>q\<in>set ps. distance rect ev p' \<le> distance rect ev q"
      by blast
    with False show ?thesis by auto
  qed
qed

lemma nearestLoop_start:
  assumes "ps \<noteq> []"
  shows "\<exists>p\<in>set ps. nearestLoop rect ev ps (None, None) = (Some p, Some (distance rect ev p))
           \<and> (\<forall>q\<in>set ps. distance rect ev p \<le> distance rect ev q)"
proof -
  from assms obtain a rest where ps: "ps = a # rest" by (cases ps) auto
  from nearestLoop_Some [of rect ev rest a] obtain p' where
    "nearestLoop rect ev rest (Some a, Some (distance rect ev a))
       = (Some p', Some (distance rect ev p'))"
    "p' = a \<or> p' \<in> set rest" "distance rect ev p' \<le> distance rect ev a"
    "\<forall>q\<in>set rest. distance rect ev p' \<le> distance rect ev q"
    by blast
  with ps show ?thesis by auto
qed

lemma findNearestPoint_hit:
  assumes "q \<in> set ps" and "distance rect ev q < 18"
  shows "\<exists>p\<in>set ps. findNearestPoint (Some rect) ev ps = Some p
           \<and> (\<forall>q\<in>set ps. distance rect ev p \<le> distance rect ev q)"
proof -
  from assms(1) have "ps \<noteq> []" by auto
  from nearestLoop_start [OF this, of rect ev] obtain p where
    p: "p \<in> set ps" "nearestLoop rect ev ps (None, None) = (Some p, Some (distance rect ev p))"
    "\<forall>q\<in>set ps. distance rect ev p \<le> distance rect ev q"
    by blast
  with assms have "distance rect ev p < 18" by force
  with p show ?thesis by (auto simp: findNearestPoint_def)
qed

lemma findNearestPoint_miss:
  assumes "\<forall>q\<in>set ps. \<not> distance rect ev q < 18"
  shows "findNearestPoint (Some rect) ev ps = None"
proof (cases "ps = []")
  case True
  then show ?thesis by (simp add: findNearestPoint_def)
next
  case False
  from nearestLoop_start [OF this, of rect ev] obtain p where
    p: "p \<in> set ps" "nearestLoop rect ev ps (None, None) = (Some p, Some (distance rect ev p))"
    by blast
  with assms have "\<not> distance rect ev p < 18" by blast
  with p show ?thesis by (simp add: findNearestPoint_def)
qed

text \<open>
  The comparison with the radius is strict: a pointer-down exactly 18 pixels from the
  only point is not captured.
\<close>

lemma radius_is_exclusive:
  "findNearestPoint (Some canvas) \<lparr> clientX = 28, clientY = 10 \<rparr>
     [\<lparr> p_id = ''a'', p_x = 10, p_y = 10 \<rparr>] = None"
  by (simp add: findNearestPoint_def distance_def canvas_def sqrt_less_18)

subsection \<open>Pointer handlers and the effects of a path change\<close>

lemma commit_points [simp]: "points (commit b m s) = points s"
  by (simp add: commit_def resetEffect_def measureEffect_def)

lemma commit_draggingId [simp]: "draggingId (commit b m s) = draggingId s"
  by (simp add: commit_def resetEffect_def measureEffect_def)

lemma getRelativeCoordinates_range:
  "\<exists>x y. getRelativeCoordinates (Some rect) ev = Some (x, y)
         \<and> 0 \<le> x \<and> x \<le> 100 \<and> 0 \<le> y \<and> y \<le> 100"
  by (simp add: getRelativeCoordinates_def Let_def)

lemma click_adds:
  assumes "outsideCapture e s"
  shows "\<exists>p. points (handle_event e s) = points s @ [p] \<and> p_id p = newIdOf e \<and> inCanvas p"
proof -
  from assms obtain target rect event newId measured where
    e: "e = PointerDown target (Some rect) event newId measured"
    by (cases "(e, s)" rule: outsideCapture.cases) auto
  with assms have "\<forall>q\<in>set (points s). \<not> distance rect event q < 18"
    by (simp add: list_all_iff)
  then have n: "findNearestPoint (Some rect) event (points s) = None"
    by (rule findNearestPoint_miss)
  obtain x y where c: "getRelativeCoordinates (Some rect) event = Some (x, y)"
    "0 \<le> x" "x \<le> 100" "0 \<le> y" "y \<le> 100"
    using getRelativeCoordinates_range by blast
  show ?thesis using e n c
    by (simp add: onPointerDown_def handlePointerDown_def inCanvas_def split: option.splits)
qed

lemma pathD_length [simp]: "length (pathD ps) = length ps"
  by (simp add: pathD_def split: list.splits)

lemma lineTo_coords:
  "map (\<lambda>point. LineTo (p_x point) (p_y point)) ps
     = map (\<lambda>point. LineTo (p_x point) (p_y point)) qs
   \<Longrightarrow> map (\<lambda>p. (p_x p, p_y p)) ps = map (\<lambda>p. (p_x p, p_y p)) qs"
  by (induction ps arbitrary: qs) auto

lemma pathD_coords:
  "pathD ps = pathD qs \<Longrightarrow> map (\<lambda>p. (p_x p, p_y p)) ps = map (\<lambda>p. (p_x p, p_y p)) qs"
  by (cases ps; cases qs) (auto simp: pathD_def dest: lineTo_coords)

text \<open>A move that changes the point list changes the path string.\<close>

lemma move_changes_pathD:
  assumes "map (\<lambda>point. if p_id point = d then point\<lparr> p_x := x, p_y := y \<rparr> else point) ps \<noteq> ps"
  shows "pathD (map (\<lambda>point. if p_id point = d then point\<lparr> p_x := x, p_y := y \<rparr> else point) ps)
           \<noteq> pathD ps"
proof
  let ?f = "\<lambda>point::ChartPoint. if p_id point = d then point\<lparr> p_x := x, p_y := y \<rparr> else point"
  assume "pathD (map ?f ps) = pathD ps"
  then have "map (\<lambda>p. (p_x p, p_y p)) (map ?f ps) = map (\<lambda>p. (p_x p, p_y p)) ps"
    by (rule pathD_coords)
  then have "\<forall>p\<in>set ps. (p_x (?f p), p_y (?f p)) = (p_x p, p_y p)"
    by simp
  then have "\<forall>p\<in>set ps. ?f p = p"
    by (auto split: if_splits)
  then have "map ?f ps = ps" by (simp add: map_idI)
  with assms show False by simp
qed

lemma resetEffect_result:
  "pending_ok s \<Longrightarrow>
   animationState (resetEffect s) = Idle \<and> progress (resetEffect s) = 0
   \<and> rafCallbacks (resetEffect s) = []"
  by (simp add: resetEffect_def pending_ok_cancel)

lemma commit_resets:
  assumes "pending_ok s" and "pathD (points s) \<noteq> pathD before"
  shows "animationState (commit before m s) = Idle \<and> progress (commit before m s) = 0
   \<and> rafCallbacks (commit before m s) = []"
proof -
  have "pending_ok (measureEffect m s)"
    using assms(1) by (simp add: measureEffect_def pending_ok_def)
  from resetEffect_result [OF this] show ?thesis using assms(2) by (simp add: commit_def)
qed

lemma handlePointerDown_points:
  "points (handlePointerDown r ev n s) = points s
   \<or> (\<exists>p. points (handlePointerDown r ev n s) = points s @ [p])"
  by (simp add: handlePointerDown_def split: option.splits prod.splits)

subsection \<open>Elapsed time\<close>

text \<open>
  With no stored timestamp the callback computes zero elapsed time, and zero elapsed
  time leaves a progress of at most 1 where it is. Pausing, resetting and a change of
  the path clear the stored timestamp.
\<close>

lemma deltaSeconds_cleared: "lastTimestampRef s = None \<Longrightarrow> deltaSeconds timestamp s = 0"
  by (simp add: deltaSeconds_def)

lemma step_zero_elapsed:
  "deltaSeconds timestamp s = 0 \<Longrightarrow> progress s \<le> 1 \<Longrightarrow> progressQueue s = [] \<Longrightarrow>
   progress (render (step cb timestamp s)) = progress s"
  by (simp add: step_def queueProgressUpdater_def render_def progressUpdater_def
      requestAnimationFrame_def Let_def)

lemma clears_timestamp:
  "lastTimestampRef (pauseAnimation s) = None"
  "lastTimestampRef (resetAnimation s) = None"
  "lastTimestampRef (resetEffect s) = None"
  by (simp_all add: pauseAnimation_def resetAnimation_def resetEffect_def)

subsection \<open>Frames between a handler and its effects, and the upper bound of progress\<close>

text \<open>
  The effects run after the render; a frame delivered in between, with the render of
  its own updaters, changes neither the point list nor the outcome of the reset.
\<close>

lemma step_points [simp]: "points (step cb t s) = points s"
  by (simp add: step_def queueProgressUpdater_def requestAnimationFrame_def Let_def)

lemma progressUpdater_points [simp]: "points (progressUpdater cb d s) = points s"
  by (simp add: progressUpdater_def Let_def)

lemma applyUpdaters_points [simp]: "points (applyUpdaters us s) = points s"
  by (induction us s rule: applyUpdaters.induct) simp_all

lemma render_points [simp]: "points (render s) = points s"
  by (simp add: render_def)

lemma runCallbacks_points [simp]: "points (runCallbacks hs t s) = points s"
  by (induction hs arbitrary: s) (simp_all add: cancelAnimationFrame_def split: option.splits)

lemma animationFrame_points [simp]: "points (animationFrame t s) = points s"
  by (simp add: animationFrame_def)

lemma commit_resets_after_frame:
  assumes "consistent s" and "pathD (points s) \<noteq> pathD before"
  shows "animationState (commit before m (render (animationFrame t s))) = Idle
       \<and> progress (commit before m (render (animationFrame t s))) = 0
       \<and> rafCallbacks (commit before m (render (animationFrame t s))) = []"
proof -
  have "consistent (animationFrame t s)" using assms(1) by (rule consistent_animationFrame)
  then have "consistent (render (animationFrame t s))" by (rule consistent_render)
  then have "pending_ok (render (animationFrame t s))" by (simp add: consistent_def)
  moreover have "pathD (points (render (animationFrame t s))) \<noteq> pathD before"
    using assms(2) by simp
  ultimately show ?thesis by (rule commit_resets)
qed

text \<open>Progress never exceeds 1, whatever the events.\<close>

lemma step_keeps_progress [simp]: "progress (step cb t s) = progress s"
  by (simp add: step_def queueProgressUpdater_def requestAnimationFrame_def Let_def)

lemma progressUpdater_le_one: "progress (progressUpdater cb d s) \<le> 1"
  by (simp add: progressUpdater_def Let_def)

lemma applyUpdaters_le_one: "progress s \<le> 1 \<Longrightarrow> progress (applyUpdaters us s) \<le> 1"
  by (induction us s rule: applyUpdaters.induct) (simp_all add: progressUpdater_le_one)

lemma render_le_one: "progress s \<le> 1 \<Longrightarrow> progress (render s) \<le> 1"
  by (simp add: render_def applyUpdaters_le_one)

lemma runCallbacks_progress_le_one:
  "progress s \<le> 1 \<Longrightarrow> progress (runCallbacks hs t s) \<le> 1"
proof (induction hs arbitrary: s)
  case Nil
  then show ?case by simp
next
  case (Cons h hs)
  have "progress (cancelAnimationFrame h s) \<le> 1"
    using Cons.prems by (simp add: cancelAnimationFrame_def)
  then have "\<And>cb. progress (step cb t (cancelAnimationFrame h s)) \<le> 1"
    by simp
  then show ?case using Cons by (simp split: option.splits)
qed

lemma handle_event_progress_le_one:
  "progress s \<le> 1 \<Longrightarrow> progress (handle_event e s) \<le> 1"
  by (cases e)
     (simp_all add: onPointerDown_def onPointerMove_def commit_def resetEffect_def
        measureEffect_def handlePointerDown_def handlePointerMove_def stopDragging_def
        startAnimation_def requestAnimationFrame_def pauseAnimation_def resetAnimation_def
        setSpeed_def onSpeedChange_def animationFrame_def runCallbacks_progress_le_one
        render_le_one Let_def
        split: option.splits prod.splits)

lemma play_progress_le_one: "progress s \<le> 1 \<Longrightarrow> progress (play events s) \<le> 1"
  by (induction events arbitrary: s) (simp_all add: handle_event_progress_le_one)

lemma run_progress_le_one: "progress (run events) \<le> 1"
  by (simp add: run_def play_progress_le_one init_def)

subsection \<open>No updater waits between two events\<close>

lemma progressUpdater_queue [simp]: "progressQueue (progressUpdater cb d s) = progressQueue s"
  by (simp add: progressUpdater_def cancelAnimationFrameIfNeeded_def cancelAnimationFrame_def
      Let_def split: option.splits)

lemma applyUpdaters_queue [simp]: "progressQueue (applyUpdaters us s) = progressQueue s"
  by (induction us s rule: applyUpdaters.induct) simp_all

lemma render_queue [simp]: "progressQueue (render s) = []"
  by (simp add: render_def)

lemma handle_event_queue: "progressQueue s = [] \<Longrightarrow> progressQueue (handle_event e s) = []"
  by (cases e)
     (simp_all add: onPointerDown_def onPointerMove_def commit_def resetEffect_def
        measureEffect_def handlePointerDown_def handlePointerMove_def stopDragging_def
        startAnimation_def requestAnimationFrame_def pauseAnimation_def resetAnimation_def
        setSpeed_def onSpeedChange_def cancelAnimationFrameIfNeeded_def
        cancelAnimationFrame_def Let_def
        split: option.splits prod.splits)

lemma play_queue: "progressQueue s = [] \<Longrightarrow> progressQueue (play events s) = []"
  by (induction events arbitrary: s) (simp_all add: handle_event_queue)

lemma run_queue_empty: "progressQueue (run events) = []"
  by (simp add: run_def play_queue init_def)

text \<open>
  The callback that meets a running animation requests the next frame, whatever its
  updater will do: the frame is pending when the callback returns.
\<close>

lemma callback_requests_frame:
  "isAnimatingRef s \<Longrightarrow> rafCallbacks (step cb t s) = rafCallbacks s @ [(rafCounter s + 1, cb)]"
  by (simp add: step_def queueProgressUpdater_def requestAnimationFrame_def Let_def)

subsection \<open>The range input\<close>

lemma rangeInputValue_bounds: "20 \<le> rangeInputValue raw \<and> rangeInputValue raw \<le> 300"
proof -
  define v where "v = min 300 (max 20 raw)"
  define z where "z = \<lfloor>(v - 20) / 10 + 1 / 2\<rfloor>"
  have v: "20 \<le> v" "v \<le> 300" by (simp_all add: v_def)
  have "0 \<le> (v - 20) / 10 + 1 / 2" using v(1) by (simp add: field_simps)
  then have lo: "0 \<le> z" unfolding z_def by (simp only: zero_le_floor)
  have "(v - 20) / 10 + 1 / 2 < 29" using v(2) by (simp add: field_simps)
  then have "z < 29" unfolding z_def by (simp only: floor_less_iff of_int_numeral)
  then have "z \<le> 28" by simp
  then have hi: "(of_int z :: real) \<le> 28" by simp
  have "(20::real) \<le> 20 + 10 * of_int z" using lo by simp
  moreover have "20 + 10 * of_int z \<le> (300::real)" using hi by simp
  moreover have "rangeInputValue raw = 20 + 10 * of_int z"
    by (simp add: rangeInputValue_def Let_def v_def z_def)
  ultimately show ?thesis by simp
qed

lemma rangeInputValue_on_step:
  "0 \<le> k \<Longrightarrow> k \<le> 28 \<Longrightarrow> rangeInputValue (20 + 10 * of_int k) = 20 + 10 * of_int k"
proof -
  assume k: "0 \<le> k" "k \<le> 28"
  have "(of_int k :: real) \<le> 28" using k(2) by simp
  then have a: "20 + 10 * (of_int k :: real) \<le> 300" by simp
  have b: "(20::real) \<le> 20 + 10 * of_int k" using k(1) by simp
  have "\<lfloor>(of_int k :: real) + 1 / 2\<rfloor> = k" by linarith
  then show ?thesis using a b by (simp add: rangeInputValue_def Let_def min_def max_def)
qed

lemma rangeInputValue_examples:
  "rangeInputValue 500 = 300" "rangeInputValue 5 = 20" "rangeInputValue 150 = 150"
  "rangeInputValue 154 = 150" "rangeInputValue 155 = 160"
  by (simp_all add: rangeInputValue_def Let_def)

text \<open>The speed of every state the page reaches lies between the bounds of the input.\<close>

lemma progressUpdater_speed [simp]: "speed (progressUpdater cb d s) = speed s"
  by (simp add: progressUpdater_def Let_def)

lemma applyUpdaters_speed [simp]: "speed (applyUpdaters us s) = speed s"
  by (induction us s rule: applyUpdaters.induct) simp_all

lemma render_speed [simp]: "speed (render s) = speed s"
  by (simp add: render_def)

lemma step_speed [simp]: "speed (step cb t s) = speed s"
  by (simp add: step_def queueProgressUpdater_def requestAnimationFrame_def Let_def)

lemma runCallbacks_speed [simp]: "speed (runCallbacks hs t s) = speed s"
  by (induction hs arbitrary: s) (simp_all add: cancelAnimationFrame_def split: option.splits)

lemma handle_event_speed:
  "20 \<le> speed s \<and> speed s \<le> 300 \<Longrightarrow>
   20 \<le> speed (handle_event e s) \<and> speed (handle_event e s) \<le> 300"
  by (cases e)
     (simp_all add: onPointerDown_def onPointerMove_def commit_def resetEffect_def
        measureEffect_def handlePointerDown_def handlePointerMove_def stopDragging_def
        startAnimation_def requestAnimationFrame_def pauseAnimation_def resetAnimation_def
        setSpeed_def onSpeedChange_def animationFrame_def rangeInputValue_bounds Let_def
        split: option.splits prod.splits)

lemma play_speed:
  "20 \<le> speed s \<and> speed s \<le> 300 \<Longrightarrow>
   20 \<le> speed (play events s) \<and> speed (play events s) \<le> 300"
  by (induction events arbitrary: s) (simp_all add: handle_event_speed)

lemma run_speed: "20 \<le> speed (run events) \<and> speed (run events) \<le> 300"
  unfolding run_def by (rule play_speed) (simp add: init_def)

subsection \<open>The pause button\<close>

text \<open>
  The button is disabled in state idle at progress 0, so a click on it does nothing
  there; the state paused at progress 0 is reached by pausing a run before it advances.
\<close>

lemma pause_button_disabled_when_idle: "run [ClickPause] = init"
  by (simp add: run_def init_def)

lemma paused_at_zero_reachable:
  "animationState (run (started @ [ClickPause])) = Paused
   \<and> progress (run (started @ [ClickPause])) = 0
   \<and> rafCallbacks (run (started @ [ClickPause])) = []"
  by (simp add: session_defs eval_defs)

section \<open>The claims\<close>

text \<open>
  C1. The first per-frame callback of every run computes zero elapsed time, also when
  the previous run ended by progress reaching 1.

  The source does this after a pause, a reset and a change of the path, which clear the
  stored timestamp (\<open>clears_timestamp\<close>, \<open>deltaSeconds_cleared\<close>). The branch of
  \<^verbatim>\<open>step\<close> that ends a run at progress 1 does what \<^verbatim>\<open>pauseAnimation\<close> does except for
  clearing the timestamp. In the session below the run ends at the frame of timestamp
  1000; start is pressed again and the first callback of the new run, at timestamp 5000,
  computes 4 seconds of elapsed time. Progress stays at 1 only because it is clamped.
\<close>

theorem restart_after_completion_counts_gap:
  "animationState (run completedRun) = Paused
   \<and> progress (run completedRun) = 1
   \<and> lastTimestampRef (run completedRun) = Some 1000
   \<and> animationState (run (completedRun @ [ClickStart])) = Running
   \<and> deltaSeconds 5000 (run (completedRun @ [ClickStart])) = 4
   \<and> progress (run (completedRun @ [ClickStart, AnimationFrame 5000])) = 1
   \<and> animationState (run (completedRun @ [ClickStart, AnimationFrame 5000])) = Paused"
  by (simp add: session_defs eval_defs)

text \<open>
  C2. Every call to setSpeed stores a speed clamped into [20,300].

  The page calls \<^verbatim>\<open>setSpeed\<close> in one place, the \<^verbatim>\<open>onChange\<close> handler of the range input,
  with the value of that input. Whatever value is asked of the input, the speed stored
  lies in [20,300]: a value at or below 20 is stored as 20, a value at or above 300 as
  300, and a value on a step of the input as it is.
\<close>

theorem speed_change_is_clamped:
  "20 \<le> speed (onSpeedChange raw s) \<and> speed (onSpeedChange raw s) \<le> 300
   \<and> (raw \<le> 20 \<longrightarrow> speed (onSpeedChange raw s) = 20)
   \<and> (300 \<le> raw \<longrightarrow> speed (onSpeedChange raw s) = 300)
   \<and> (\<forall>k. 0 \<le> k \<and> k \<le> 28 \<and> raw = 20 + 10 * of_int k \<longrightarrow> speed (onSpeedChange raw s) = raw)"
proof -
  have s: "speed (onSpeedChange raw s) = rangeInputValue raw"
    by (simp add: onSpeedChange_def setSpeed_def)
  have lo: "rangeInputValue raw = 20" if "raw \<le> 20"
    using that by (simp add: rangeInputValue_def Let_def max_def)
  have hi: "rangeInputValue raw = 300" if "300 \<le> raw"
    using that by (simp add: rangeInputValue_def Let_def min_def max_def)
  have st: "rangeInputValue raw = raw" if "0 \<le> k \<and> k \<le> 28 \<and> raw = 20 + 10 * of_int k" for k
    using that rangeInputValue_on_step [of k] by simp
  show ?thesis
    unfolding s
  proof (intro conjI impI allI)
    show "20 \<le> rangeInputValue raw" and "rangeInputValue raw \<le> 300"
      using rangeInputValue_bounds [of raw] by simp_all
    show "rangeInputValue raw = 20" if "raw \<le> 20" using that by (rule lo)
    show "rangeInputValue raw = 300" if "300 \<le> raw" using that by (rule hi)
    show "rangeInputValue raw = raw" if "0 \<le> k \<and> k \<le> 28 \<and> raw = 20 + 10 * of_int k" for k
      using that by (rule st)
  qed
qed

theorem speed_change_is_clamped_witness:
  "(300::real) \<le> 500 \<and> speed (onSpeedChange 500 init) = 300
   \<and> (5::real) \<le> 20 \<and> speed (onSpeedChange 5 init) = 20
   \<and> (0::int) \<le> 13 \<and> (13::int) \<le> 28 \<and> (150::real) = 20 + 10 * of_int 13
   \<and> speed (onSpeedChange 150 init) = 150
   \<and> speed (run [ChangeSpeed 500]) = 300"
proof -
  have e: "(150::real) = 20 + 10 * of_int 13" by simp
  have r: "speed (run [ChangeSpeed 500]) = speed (onSpeedChange 500 init)"
    by (simp add: run_def)
  have a: "speed (onSpeedChange 500 init) = 300"
    using speed_change_is_clamped [of 500 init] by simp
  have b: "speed (onSpeedChange 5 init) = 20"
    using speed_change_is_clamped [of 5 init] by simp
  have "0 \<le> (13::int) \<and> (13::int) \<le> 28 \<and> (150::real) = 20 + 10 * of_int 13 \<longrightarrow>
        speed (onSpeedChange 150 init) = 150"
    using speed_change_is_clamped [of 150 init] by blast
  then have c: "speed (onSpeedChange 150 init) = 150" by simp
  from a b c r show ?thesis by simp
qed

text \<open>
  C3. A pointer-down or a pointer-move that changes the point list while the animation
  is running or paused leaves the state idle, progress 0 and no callback pending. The
  handler is taken together with the render and the effects that follow it; a frame
  in between makes no difference (\<open>commit_resets_after_frame\<close>).
\<close>

theorem path_change_resets:
  assumes "consistent s" and "animationState s = Running \<or> animationState s = Paused"
  shows "(points (onPointerDown target svgRect ev newId measured s) \<noteq> points s \<longrightarrow>
            animationState (onPointerDown target svgRect ev newId measured s) = Idle
          \<and> progress (onPointerDown target svgRect ev newId measured s) = 0
          \<and> rafCallbacks (onPointerDown target svgRect ev newId measured s) = [])
       \<and> (points (onPointerMove svgRect ev measured s) \<noteq> points s \<longrightarrow>
            animationState (onPointerMove svgRect ev measured s) = Idle
          \<and> progress (onPointerMove svgRect ev measured s) = 0
          \<and> rafCallbacks (onPointerMove svgRect ev measured s) = [])"
proof (intro conjI impI)
  let ?s1 = "case target of None \<Rightarrow> s | Some pid \<Rightarrow> s\<lparr> draggingId := Some pid \<rparr>"
  let ?s2 = "handlePointerDown svgRect ev newId ?s1"
  have p1: "points ?s1 = points s" by (simp split: option.splits)
  have ok: "pending_ok ?s2"
    using assms(1)
    by (simp add: consistent_def pending_ok_def handlePointerDown_def
        split: option.splits prod.splits)
  assume "points (onPointerDown target svgRect ev newId measured s) \<noteq> points s"
  then have "points ?s2 \<noteq> points s" by (simp add: onPointerDown_def)
  with handlePointerDown_points [of svgRect ev newId ?s1] p1
  have "length (points ?s2) \<noteq> length (points s)" by auto
  then have "pathD (points ?s2) \<noteq> pathD (points s)" by (metis pathD_length)
  from commit_resets [OF ok this, of measured]
  show "animationState (onPointerDown target svgRect ev newId measured s) = Idle"
    and "progress (onPointerDown target svgRect ev newId measured s) = 0"
    and "rafCallbacks (onPointerDown target svgRect ev newId measured s) = []"
    by (simp_all add: onPointerDown_def)
next
  let ?s2 = "handlePointerMove svgRect ev s"
  have ok: "pending_ok ?s2"
    using assms(1)
    by (simp add: consistent_def pending_ok_def handlePointerMove_def
        split: option.splits prod.splits)
  assume "points (onPointerMove svgRect ev measured s) \<noteq> points s"
  then have ne: "points ?s2 \<noteq> points s" by (simp add: onPointerMove_def)
  have "pathD (points ?s2) \<noteq> pathD (points s)"
    using ne
    by (auto simp: handlePointerMove_def move_changes_pathD split: option.splits if_splits)
  from commit_resets [OF ok this, of measured]
  show "animationState (onPointerMove svgRect ev measured s) = Idle"
    and "progress (onPointerMove svgRect ev measured s) = 0"
    and "rafCallbacks (onPointerMove svgRect ev measured s) = []"
    by (simp_all add: onPointerMove_def)
qed

theorem path_change_resets_witness:
  "consistent (run draggingWhileRunning)
   \<and> animationState (run draggingWhileRunning) = Running
   \<and> progress (run draggingWhileRunning) = 3 / 8
   \<and> rafCallbacks (run draggingWhileRunning) \<noteq> []
   \<and> points (onPointerDown None (Some canvas) \<lparr> clientX = 50, clientY = 50 \<rparr> ''c'' 120
               (run draggingWhileRunning)) \<noteq> points (run draggingWhileRunning)
   \<and> animationState (onPointerDown None (Some canvas) \<lparr> clientX = 50, clientY = 50 \<rparr> ''c'' 120
               (run draggingWhileRunning)) = Idle
   \<and> progress (onPointerDown None (Some canvas) \<lparr> clientX = 50, clientY = 50 \<rparr> ''c'' 120
               (run draggingWhileRunning)) = 0
   \<and> rafCallbacks (onPointerDown None (Some canvas) \<lparr> clientX = 50, clientY = 50 \<rparr> ''c'' 120
               (run draggingWhileRunning)) = []
   \<and> points (onPointerMove (Some canvas) \<lparr> clientX = 50, clientY = 50 \<rparr> 120
               (run draggingWhileRunning)) \<noteq> points (run draggingWhileRunning)
   \<and> animationState (onPointerMove (Some canvas) \<lparr> clientX = 50, clientY = 50 \<rparr> 120
               (run draggingWhileRunning)) = Idle
   \<and> progress (onPointerMove (Some canvas) \<lparr> clientX = 50, clientY = 50 \<rparr> 120
               (run draggingWhileRunning)) = 0
   \<and> rafCallbacks (onPointerMove (Some canvas) \<lparr> clientX = 50, clientY = 50 \<rparr> 120
               (run draggingWhileRunning)) = []"
proof -
  let ?s = "run draggingWhileRunning"
  let ?ev = "\<lparr> clientX = 50, clientY = 50 \<rparr>"
  have c: "consistent ?s" by (rule consistent_run)
  have r: "animationState ?s = Running" by (simp add: session_defs eval_defs)
  have g: "progress ?s = 3 / 8" by (simp add: session_defs eval_defs)
  have q: "rafCallbacks ?s \<noteq> []" by (simp add: session_defs eval_defs)
  have d: "points (onPointerDown None (Some canvas) ?ev ''c'' 120 ?s) \<noteq> points ?s"
    by (simp add: session_defs eval_defs)
  have m: "points (onPointerMove (Some canvas) ?ev 120 ?s) \<noteq> points ?s"
    by (simp add: session_defs eval_defs)
  from path_change_resets [OF c disjI1 [OF r], of None "Some canvas" ?ev "''c''" 120] c r g q d m
  show ?thesis by blast
qed

text \<open>
  C4. While the state is running, a per-frame callback with non-negative elapsed time
  and positive speed leaves progress non-decreasing and within [0,1]; when progress
  reaches 1 the state becomes paused and no frame is scheduled.

  The statement is about the frame as the page receives it: the browser takes the
  pending callback out of its map and calls it, the callback queues its updater and
  requests the next frame (\<open>callback_requests_frame\<close>), and the render runs the updater.
  It is the updater that moves progress; when it brings progress to 1 it sets the state
  to paused and cancels the frame that its callback has requested, and otherwise that
  frame stays pending and the state stays running.
\<close>

theorem frame_progress:
  assumes "animationState s = Running" and "consistent s"
    and "rafCallbacks s = [(h, cb)]" and "progressQueue s = []"
    and "0 \<le> progress s" and "progress s \<le> 1"
    and "0 \<le> deltaSeconds timestamp s" and "0 < cl_speed cb"
  shows "progress s \<le> progress (handle_event (AnimationFrame timestamp) s)
       \<and> 0 \<le> progress (handle_event (AnimationFrame timestamp) s)
       \<and> progress (handle_event (AnimationFrame timestamp) s) \<le> 1
       \<and> (progress (handle_event (AnimationFrame timestamp) s) = 1 \<longrightarrow>
            animationState (handle_event (AnimationFrame timestamp) s) = Paused
            \<and> rafCallbacks (handle_event (AnimationFrame timestamp) s) = [])
       \<and> (progress (handle_event (AnimationFrame timestamp) s) < 1 \<longrightarrow>
            animationState (handle_event (AnimationFrame timestamp) s) = Running
            \<and> rafCallbacks (handle_event (AnimationFrame timestamp) s) = [(rafCounter s + 1, cb)])"
proof -
  let ?d = "deltaSeconds timestamp s"
  let ?dp = "if cl_pathLength cb > 0 then cl_speed cb * ?d / cl_pathLength cb else 0"
  let ?s0 = "cancelAnimationFrame h s"
  have a: "isAnimatingRef s" using assms(1,2) by (simp add: consistent_def)
  have "0 \<le> cl_speed cb * ?d" using assms(7,8) by simp
  then have dp: "0 \<le> ?dp" by simp
  have d0: "deltaSeconds timestamp ?s0 = ?d"
    by (simp add: deltaSeconds_def cancelAnimationFrame_def)
  have f: "handle_event (AnimationFrame timestamp) s = render (step cb timestamp ?s0)"
    using assms(3) by (simp add: animationFrame_single)
  have st: "step cb timestamp ?s0
      = s\<lparr> lastTimestampRef := Some timestamp, progressQueue := [(cb, ?d)],
            rafCounter := rafCounter s + 1, rafCallbacks := [(rafCounter s + 1, cb)],
            frameRef := Some (rafCounter s + 1) \<rparr>"
    using a assms(3,4) d0
    by (simp add: step_def queueProgressUpdater_def requestAnimationFrame_def
        cancelAnimationFrame_def Let_def)
  show ?thesis
  proof (cases "1 \<le> progress s + ?dp")
    case True
    then show ?thesis using assms(1,5,6) unfolding f st
      by (simp add: render_def progressUpdater_def cancelAnimationFrameIfNeeded_def
          cancelAnimationFrame_def Let_def)
  next
    case False
    then show ?thesis using dp assms(1,5,6) unfolding f st
      by (simp add: render_def progressUpdater_def Let_def min_def)
  qed
qed

theorem frame_progress_witness:
  "animationState (run (started @ [AnimationFrame 0])) = Running
   \<and> consistent (run (started @ [AnimationFrame 0]))
   \<and> rafCallbacks (run (started @ [AnimationFrame 0])) = [(2, \<lparr> cl_speed = 120, cl_pathLength = 80 \<rparr>)]
   \<and> progressQueue (run (started @ [AnimationFrame 0])) = []
   \<and> progress (run (started @ [AnimationFrame 0])) = 0
   \<and> 0 \<le> deltaSeconds 1000 (run (started @ [AnimationFrame 0]))
   \<and> 0 \<le> deltaSeconds 250 (run (started @ [AnimationFrame 0]))
   \<and> 0 < cl_speed \<lparr> cl_speed = 120, cl_pathLength = 80 \<rparr>
   \<and> rafCallbacks (animationFrame 1000 (run (started @ [AnimationFrame 0]))) \<noteq> []
   \<and> progress (handle_event (AnimationFrame 1000) (run (started @ [AnimationFrame 0]))) = 1
   \<and> animationState (handle_event (AnimationFrame 1000) (run (started @ [AnimationFrame 0]))) = Paused
   \<and> rafCallbacks (handle_event (AnimationFrame 1000) (run (started @ [AnimationFrame 0]))) = []
   \<and> progress (handle_event (AnimationFrame 250) (run (started @ [AnimationFrame 0]))) = 3 / 8
   \<and> animationState (handle_event (AnimationFrame 250) (run (started @ [AnimationFrame 0]))) = Running
   \<and> rafCallbacks (handle_event (AnimationFrame 250) (run (started @ [AnimationFrame 0])))
       = [(3, \<lparr> cl_speed = 120, cl_pathLength = 80 \<rparr>)]"
proof -
  let ?s = "run (started @ [AnimationFrame 0])"
  let ?cb = "\<lparr> cl_speed = 120, cl_pathLength = 80 \<rparr>"
  have r: "animationState ?s = Running" by (simp add: session_defs eval_defs)
  have c: "consistent ?s" by (rule consistent_run)
  have q: "rafCallbacks ?s = [(2, ?cb)]" by (simp add: session_defs eval_defs)
  have u: "progressQueue ?s = []" by (rule run_queue_empty)
  have p: "progress ?s = 0" by (simp add: session_defs eval_defs)
  have n: "rafCounter ?s = 2" by (simp add: session_defs eval_defs)
  have d1: "0 \<le> deltaSeconds 1000 ?s" and d2: "0 \<le> deltaSeconds 250 ?s"
    by (simp_all add: session_defs eval_defs)
  have v: "0 < cl_speed ?cb" by simp
  have t: "rafCallbacks (animationFrame 1000 ?s) \<noteq> []" by (simp add: session_defs eval_defs)
  have one: "progress (handle_event (AnimationFrame 1000) ?s) = 1"
    by (simp add: session_defs eval_defs)
  have part: "progress (handle_event (AnimationFrame 250) ?s) = 3 / 8"
    by (simp add: session_defs eval_defs)
  have p0: "0 \<le> progress ?s" and p1: "progress ?s \<le> 1" using p by simp_all
  from frame_progress [OF r c q u p0 p1 d1 v] frame_progress [OF r c q u p0 p1 d2 v]
       r c q u p n d1 d2 v t one part
  show ?thesis by simp
qed

text \<open>
  C5. start() with fewer than 2 points or with a measured path length of 0 changes
  nothing: the state that \<^verbatim>\<open>startAnimation\<close> returns is the state it was given, pending
  callbacks included.
\<close>

theorem start_without_path_is_noop:
  "length (points s) < 2 \<or> pathLength s = 0 \<Longrightarrow> startAnimation s = s"
  by (simp add: startAnimation_def)

theorem start_without_path_is_noop_witness:
  "length (points (run (take 2 twoPoints))) = 1
   \<and> (length (points (run (take 2 twoPoints))) < 2 \<or> pathLength (run (take 2 twoPoints)) = 0)
   \<and> startAnimation (run (take 2 twoPoints)) = run (take 2 twoPoints)"
proof -
  have l: "length (points (run (take 2 twoPoints))) = 1" by (simp add: session_defs eval_defs)
  then have h: "length (points (run (take 2 twoPoints))) < 2 \<or> pathLength (run (take 2 twoPoints)) = 0"
    by simp
  from start_without_path_is_noop [OF h] l h show ?thesis by simp
qed

text \<open>
  C6. A pointer-down on the canvas within the capture radius of 18 pixels of an existing
  point adds no point and makes the id of a nearest point the dragged-point marker;
  otherwise it appends a new point. Within the radius is, as in the source, at a
  distance less than 18 (\<open>radius_is_exclusive\<close>).
\<close>

theorem pointer_down_captures_nearest:
  "(if \<exists>q\<in>set (points s). distance rect ev q < 18
    then \<exists>p\<in>set (points s).
           (\<forall>q\<in>set (points s). distance rect ev p \<le> distance rect ev q)
           \<and> points (onPointerDown target (Some rect) ev newId measured s) = points s
           \<and> draggingId (onPointerDown target (Some rect) ev newId measured s) = Some (p_id p)
    else \<exists>x y. getRelativeCoordinates (Some rect) ev = Some (x, y)
           \<and> points (onPointerDown target (Some rect) ev newId measured s)
               = points s @ [\<lparr> p_id = newId, p_x = x, p_y = y \<rparr>])"
proof (cases "\<exists>q\<in>set (points s). distance rect ev q < 18")
  case True
  then obtain q where "q \<in> set (points s)" "distance rect ev q < 18" by blast
  from findNearestPoint_hit [OF this] obtain p where
    p: "p \<in> set (points s)" "findNearestPoint (Some rect) ev (points s) = Some p"
    "\<forall>q\<in>set (points s). distance rect ev p \<le> distance rect ev q"
    by blast
  then have "(\<forall>q\<in>set (points s). distance rect ev p \<le> distance rect ev q)
           \<and> points (onPointerDown target (Some rect) ev newId measured s) = points s
           \<and> draggingId (onPointerDown target (Some rect) ev newId measured s) = Some (p_id p)"
    by (simp add: onPointerDown_def handlePointerDown_def split: option.splits)
  with p(1) True show ?thesis by auto
next
  case False
  then have "findNearestPoint (Some rect) ev (points s) = None"
    by (simp add: findNearestPoint_miss)
  moreover obtain x y where "getRelativeCoordinates (Some rect) ev = Some (x, y)"
    using getRelativeCoordinates_range by blast
  ultimately show ?thesis using False
    by (simp add: onPointerDown_def handlePointerDown_def split: option.splits)
qed

theorem pointer_down_captures_nearest_witness:
  "(\<exists>q\<in>set (points (run twoPoints)). distance canvas \<lparr> clientX = 80, clientY = 16 \<rparr> q < 18)
   \<and> points (onPointerDown None (Some canvas) \<lparr> clientX = 80, clientY = 16 \<rparr> ''c'' 80 (run twoPoints))
       = points (run twoPoints)
   \<and> draggingId (onPointerDown None (Some canvas) \<lparr> clientX = 80, clientY = 16 \<rparr> ''c'' 80 (run twoPoints))
       = Some ''b''
   \<and> \<not> (\<exists>q\<in>set (points (run twoPoints)). distance canvas \<lparr> clientX = 50, clientY = 50 \<rparr> q < 18)
   \<and> points (onPointerDown None (Some canvas) \<lparr> clientX = 50, clientY = 50 \<rparr> ''c'' 120 (run twoPoints))
       = points (run twoPoints) @ [\<lparr> p_id = ''c'', p_x = 50, p_y = 50 \<rparr>]"
proof -
  let ?s = "run twoPoints"
  let ?near = "\<lparr> clientX = 80, clientY = 16 \<rparr>"
  let ?far = "\<lparr> clientX = 50, clientY = 50 \<rparr>"
  have pts: "points ?s = [\<lparr> p_id = ''a'', p_x = 10, p_y = 10 \<rparr>, \<lparr> p_id = ''b'', p_x = 90, p_y = 10 \<rparr>]"
    by (simp add: session_defs eval_defs)
  have da: "\<not> distance canvas ?near \<lparr> p_id = ''a'', p_x = 10, p_y = 10 \<rparr> < 18"
    and db: "distance canvas ?near \<lparr> p_id = ''b'', p_x = 90, p_y = 10 \<rparr> < 18"
    by (simp_all add: distance_def canvas_def sqrt_less_18)
  have hit: "\<exists>q\<in>set (points ?s). distance canvas ?near q < 18"
    using pts db by simp
  have miss: "\<not> (\<exists>q\<in>set (points ?s). distance canvas ?far q < 18)"
    using pts by (simp add: distance_def canvas_def sqrt_less_18)
  have c: "getRelativeCoordinates (Some canvas) ?far = Some (50, 50)"
    by (simp add: getRelativeCoordinates_def canvas_def)
  from pointer_down_captures_nearest [of ?s canvas ?near None "''c''" 80] hit
  obtain p where p: "p \<in> set (points ?s)"
    "\<forall>q\<in>set (points ?s). distance canvas ?near p \<le> distance canvas ?near q"
    "points (onPointerDown None (Some canvas) ?near ''c'' 80 ?s) = points ?s"
    "draggingId (onPointerDown None (Some canvas) ?near ''c'' 80 ?s) = Some (p_id p)"
    by auto
  have "p_id p = ''b''"
  proof (rule ccontr)
    assume "p_id p \<noteq> ''b''"
    with p(1) pts have "p = \<lparr> p_id = ''a'', p_x = 10, p_y = 10 \<rparr>" by auto
    with p(2) pts have "distance canvas ?near \<lparr> p_id = ''a'', p_x = 10, p_y = 10 \<rparr>
        \<le> distance canvas ?near \<lparr> p_id = ''b'', p_x = 90, p_y = 10 \<rparr>" by simp
    with da db show False by simp
  qed
  moreover from pointer_down_captures_nearest [of ?s canvas ?far None "''c''" 120] miss c
  have "points (onPointerDown None (Some canvas) ?far ''c'' 120 ?s)
          = points ?s @ [\<lparr> p_id = ''c'', p_x = 50, p_y = 50 \<rparr>]"
    by simp
  ultimately show ?thesis using hit miss p by simp
qed

text \<open>
  C7. A sequence of clicks, each outside the capture radius of the points placed before
  it, appends one point per click at the end of the list, in the order of the clicks, and
  every point it adds has both coordinates in [0,100], wherever the pointer was.
\<close>

theorem clicks_append_in_order:
  "clickToAdd events s \<Longrightarrow>
   \<exists>added. points (play events s) = points s @ added
        \<and> map p_id added = map newIdOf events
        \<and> list_all inCanvas added"
proof (induction events arbitrary: s)
  case Nil
  show ?case by simp
next
  case (Cons e es)
  then have o: "outsideCapture e s" and r: "clickToAdd es (handle_event e s)" by simp_all
  from click_adds [OF o] obtain p where
    p: "points (handle_event e s) = points s @ [p]" "p_id p = newIdOf e" "inCanvas p" by blast
  from Cons.IH [OF r] obtain added where
    a: "points (play es (handle_event e s)) = points (handle_event e s) @ added"
    "map p_id added = map newIdOf es" "list_all inCanvas added" by blast
  have "points (play (e # es) s) = points s @ (p # added)" using p a by simp
  moreover have "map p_id (p # added) = map newIdOf (e # es)" using p a by simp
  moreover have "list_all inCanvas (p # added)" using p a by simp
  ultimately show ?case by blast
qed

theorem clicks_append_in_order_witness:
  "clickToAdd threeClicks init
   \<and> points (play threeClicks init)
       = [\<lparr> p_id = ''a'', p_x = 10, p_y = 10 \<rparr>,
          \<lparr> p_id = ''b'', p_x = 100, p_y = 50 \<rparr>,
          \<lparr> p_id = ''c'', p_x = 90, p_y = 0 \<rparr>]
   \<and> (\<exists>added. points (play threeClicks init) = points init @ added
        \<and> map p_id added = map newIdOf threeClicks
        \<and> list_all inCanvas added)"
proof -
  have h: "clickToAdd threeClicks init"
    by (simp add: session_defs eval_defs)
  have v: "points (play threeClicks init)
       = [\<lparr> p_id = ''a'', p_x = 10, p_y = 10 \<rparr>,
          \<lparr> p_id = ''b'', p_x = 100, p_y = 50 \<rparr>,
          \<lparr> p_id = ''c'', p_x = 90, p_y = 0 \<rparr>]"
    by (simp add: session_defs eval_defs)
  from clicks_append_in_order [OF h] h v show ?thesis by simp
qed

text \<open>
  C8. While a point id is marked as dragged, a pointer-move on a canvas of positive
  width and height gives the points of that id the pointer position converted to
  percentages of the canvas box, (client position - corner of the box) / size of the
  box * 100 on each axis, clamped to [0,100], and leaves every other point as it was;
  the length of the list, the ids and their order do not change, no point is created,
  and the marker stays.
\<close>

theorem drag_moves_only_dragged:
  assumes "draggingId s = Some d" and "d \<noteq> []"
    and "0 < rect_width rect" and "0 < rect_height rect"
  shows "\<exists>x y. x = min 100 (max 0 ((clientX ev - rect_left rect) / rect_width rect * 100))
           \<and> y = min 100 (max 0 ((clientY ev - rect_top rect) / rect_height rect * 100))
           \<and> getRelativeCoordinates (Some rect) ev = Some (x, y)
           \<and> 0 \<le> x \<and> x \<le> 100 \<and> 0 \<le> y \<and> y \<le> 100
           \<and> length (points (onPointerMove (Some rect) ev measured s)) = length (points s)
           \<and> map p_id (points (onPointerMove (Some rect) ev measured s)) = map p_id (points s)
           \<and> (\<forall>i < length (points s).
                 if p_id (points s ! i) = d
                 then points (onPointerMove (Some rect) ev measured s) ! i
                        = (points s ! i)\<lparr> p_x := x, p_y := y \<rparr>
                 else points (onPointerMove (Some rect) ev measured s) ! i = points s ! i)
           \<and> draggingId (onPointerMove (Some rect) ev measured s) = Some d"
proof -
  let ?x = "min 100 (max 0 ((clientX ev - rect_left rect) / rect_width rect * 100))"
  let ?y = "min 100 (max 0 ((clientY ev - rect_top rect) / rect_height rect * 100))"
  have c: "getRelativeCoordinates (Some rect) ev = Some (?x, ?y)"
    by (simp add: getRelativeCoordinates_def Let_def)
  have b: "0 \<le> ?x" "?x \<le> 100" "0 \<le> ?y" "?y \<le> 100" by simp_all
  have m: "map (p_id \<circ> (\<lambda>point. if p_id point = d then point\<lparr> p_x := ?x, p_y := ?y \<rparr> else point))
             (points s) = map p_id (points s)"
    by (rule map_cong) auto
  have "length (points (onPointerMove (Some rect) ev measured s)) = length (points s)
      \<and> map p_id (points (onPointerMove (Some rect) ev measured s)) = map p_id (points s)
      \<and> (\<forall>i < length (points s).
            if p_id (points s ! i) = d
            then points (onPointerMove (Some rect) ev measured s) ! i
                   = (points s ! i)\<lparr> p_x := ?x, p_y := ?y \<rparr>
            else points (onPointerMove (Some rect) ev measured s) ! i = points s ! i)
      \<and> draggingId (onPointerMove (Some rect) ev measured s) = Some d"
    using assms(1,2) c m by (simp add: onPointerMove_def handlePointerMove_def)
  with c b show ?thesis by blast
qed

theorem drag_moves_only_dragged_witness:
  "draggingId (run draggingOnWideCanvas) = Some ''a'' \<and> ''a'' \<noteq> []
   \<and> 0 < rect_width wideCanvas \<and> 0 < rect_height wideCanvas
   \<and> points (run draggingOnWideCanvas)
       = [\<lparr> p_id = ''a'', p_x = 10, p_y = 10 \<rparr>, \<lparr> p_id = ''b'', p_x = 90, p_y = 10 \<rparr>]
   \<and> min 100 (max 0 ((clientX \<lparr> clientX = 140, clientY = 300 \<rparr> - rect_left wideCanvas)
                        / rect_width wideCanvas * 100)) = (25::real)
   \<and> min 100 (max 0 ((clientY \<lparr> clientX = 140, clientY = 300 \<rparr> - rect_top wideCanvas)
                        / rect_height wideCanvas * 100)) = (100::real)
   \<and> points (onPointerMove (Some wideCanvas) \<lparr> clientX = 140, clientY = 300 \<rparr> 300
               (run draggingOnWideCanvas))
       = [\<lparr> p_id = ''a'', p_x = 25, p_y = 100 \<rparr>, \<lparr> p_id = ''b'', p_x = 90, p_y = 10 \<rparr>]
   \<and> draggingId (onPointerMove (Some wideCanvas) \<lparr> clientX = 140, clientY = 300 \<rparr> 300
               (run draggingOnWideCanvas)) = Some ''a''"
proof -
  let ?s = "run draggingOnWideCanvas"
  let ?ev = "\<lparr> clientX = 140, clientY = 300 \<rparr>"
  let ?s' = "onPointerMove (Some wideCanvas) ?ev 300 ?s"
  have d: "draggingId ?s = Some ''a''" by (simp add: session_defs eval_defs)
  have n: "''a'' \<noteq> []" by simp
  have w: "0 < rect_width wideCanvas" and h: "0 < rect_height wideCanvas"
    by (simp_all add: wideCanvas_def)
  have p: "points ?s = [\<lparr> p_id = ''a'', p_x = 10, p_y = 10 \<rparr>, \<lparr> p_id = ''b'', p_x = 90, p_y = 10 \<rparr>]"
    by (simp add: session_defs eval_defs)
  have x: "min 100 (max 0 ((clientX ?ev - rect_left wideCanvas) / rect_width wideCanvas * 100))
             = (25::real)"
    and y: "min 100 (max 0 ((clientY ?ev - rect_top wideCanvas) / rect_height wideCanvas * 100))
             = (100::real)"
    by (simp_all add: wideCanvas_def)
  have q: "points ?s' = [\<lparr> p_id = ''a'', p_x = 25, p_y = 100 \<rparr>, \<lparr> p_id = ''b'', p_x = 90, p_y = 10 \<rparr>]"
    by (simp add: session_defs eval_defs)
  from drag_moves_only_dragged [OF d n w h, of ?ev 300] x y
  have g: "draggingId ?s' = Some ''a''" by auto
  from d n w h p x y q g show ?thesis by simp
qed

text \<open>
  C9. reset() is idempotent: a second call returns the state the first one returned,
  which is idle, at progress 0, with the elapsed-time tracking cleared and, in every
  state the page reaches, with no callback pending.
\<close>

theorem reset_idempotent:
  "resetAnimation (resetAnimation s) = resetAnimation s
   \<and> animationState (resetAnimation s) = Idle
   \<and> progress (resetAnimation s) = 0
   \<and> lastTimestampRef (resetAnimation s) = None
   \<and> (consistent s \<longrightarrow> rafCallbacks (resetAnimation s) = [])"
  by (simp add: resetAnimation_def cancel_update_commute cancel_idem pending_ok_cancel
      consistent_def)

theorem reset_idempotent_witness:
  "consistent (run started) \<and> animationState (run started) = Running
   \<and> rafCallbacks (run started) \<noteq> []
   \<and> rafCallbacks (resetAnimation (run started)) = []
   \<and> resetAnimation (resetAnimation (run started)) = resetAnimation (run started)"
proof -
  have c: "consistent (run started)" by (rule consistent_run)
  have r: "animationState (run started) = Running" by (simp add: session_defs eval_defs)
  have q: "rafCallbacks (run started) \<noteq> []" by (simp add: session_defs eval_defs)
  from reset_idempotent [of "run started"] c r q show ?thesis by simp
qed

text \<open>
  C10. pause() does not look at the animation state: in every state it sets the state to
  paused and leaves progress as it is. From the initial state, which is idle at progress
  0 with no callback pending, it gives a state that is paused at progress 0. Through the
  buttons the same state is reached by another way (\<open>paused_at_zero_reachable\<close>).
\<close>

theorem pause_is_unguarded:
  "animationState (pauseAnimation s) = Paused
   \<and> progress (pauseAnimation s) = progress s
   \<and> animationState init = Idle \<and> progress init = 0 \<and> rafCallbacks init = []
   \<and> animationState (pauseAnimation init) = Paused
   \<and> progress (pauseAnimation init) = 0"
  by (simp add: pauseAnimation_def init_def)

end
